theory Spec2Isabelle
  imports Main "HOL-Library.Multiset" "HOL-Library.Sublist"
begin

section \<open>JavaScript values, thrown errors and string rendering\<close>

text \<open>
  The two services verified here are \<open>GeminiGenImageService\<close>
  (src/services/gemini-genai.service.ts) and its rate-limited wrapper
  \<open>RateLimitedImageService\<close> (rate-limited-image.service.ts). Times are
  milliseconds as returned by \<open>Date.now()\<close>, modelled as natural numbers.
  Console output is not modelled.
\<close>

datatype js_val = JUndefined | JNum int | JStr string

record http_response =
  resp_status :: int
  resp_statusText :: string
  resp_data_message :: "string option"
  resp_data_error :: "string option"
  resp_data_detail_retry_after :: js_val
  resp_data_retry_after :: js_val
  resp_header_retry_after :: js_val
  resp_header_Retry_After :: js_val

text \<open>
  A thrown value: \<open>Error msg\<close> is \<open>new Error(msg)\<close>; \<open>AxiosError msg resp\<close> is
  what axios rejects with (an \<open>Error\<close> instance, with an optional response);
  \<open>ThrownValue msg resp\<close> is any other thrown value, with the \<open>message\<close> and
  \<open>response\<close> properties it may carry.
\<close>

datatype js_error =
    Error string
  | AxiosError string "http_response option"
  | ThrownValue "string option" "http_response option"

fun instanceofError :: "js_error \<Rightarrow> bool" where
  "instanceofError (Error m) = True"
| "instanceofError (AxiosError m r) = True"
| "instanceofError (ThrownValue m r) = False"

fun isAxiosError :: "js_error \<Rightarrow> bool" where
  "isAxiosError (AxiosError m r) = True"
| "isAxiosError e = False"

fun err_message :: "js_error \<Rightarrow> string option" where
  "err_message (Error m) = Some m"
| "err_message (AxiosError m r) = Some m"
| "err_message (ThrownValue m r) = m"

fun err_response :: "js_error \<Rightarrow> http_response option" where
  "err_response (Error m) = None"
| "err_response (AxiosError m r) = r"
| "err_response (ThrownValue m r) = r"

text \<open>\<open>error instanceof Error ? error.message : dflt\<close>\<close>

definition messageOr :: "js_error \<Rightarrow> string \<Rightarrow> string" where
  "messageOr e dflt =
     (if instanceofError e then (case err_message e of Some m \<Rightarrow> m | None \<Rightarrow> dflt) else dflt)"

text \<open>Decimal rendering of a number inside a template literal.\<close>

definition digit_char :: "nat \<Rightarrow> char" where
  "digit_char d = ''0123456789'' ! d"

function show_nat :: "nat \<Rightarrow> string" where
  "show_nat n = (if n < 10 then [digit_char n] else show_nat (n div 10) @ [digit_char (n mod 10)])"
  by pat_completeness auto
termination
  by (relation "measure id") auto

declare show_nat.simps [simp del]

definition show_int :: "int \<Rightarrow> string" where
  "show_int i = (if i < 0 then CHR ''-'' # show_nat (nat (- i)) else show_nat (nat i))"

fun js_toString :: "js_val \<Rightarrow> string" where
  "js_toString JUndefined = ''undefined''"
| "js_toString (JNum i) = show_int i"
| "js_toString (JStr s) = s"

section \<open>GeminiGenImageService.pollTaskCompletion\<close>

record generated_image =
  image_url :: "string option"

record task =
  task_status :: js_val
  task_generated_image :: "generated_image list option"
  task_error_message :: "string option"

text \<open>
  The outcome of one \<open>axios.get(statusUrl)\<close>: the promise rejects, or it resolves
  with \<open>response.data\<close>. The provider is the sequence of these outcomes, indexed by
  the number of status queries issued before.
\<close>

datatype query_result = Throws js_error | Reply task

type_synonym provider = "nat \<Rightarrow> query_result"

datatype poll_event = Wait nat | Query nat

definition pollingSchedule :: "(nat \<times> nat) list" where
  "pollingSchedule = [(1, 0), (2, 38000), (3, 25000), (4, 30000)]"

datatype 'a completion = Return 'a | Throw js_error | Continue

text \<open>\<open>task.error_message || 'Unknown error'\<close>: the empty string is falsy.\<close>

definition error_message_or_unknown :: "task \<Rightarrow> string" where
  "error_message_or_unknown t =
     (case task_error_message t of
        None \<Rightarrow> ''Unknown error''
      | Some m \<Rightarrow> (if m = [] then ''Unknown error'' else m))"

text \<open>
  The statements of the \<open>try\<close> block after the status query has answered with
  \<open>task\<close>, at schedule entry \<open>attempt\<close> with \<open>totalTime\<close> accumulated;
  \<open>len\<close> is \<open>pollingSchedule.length\<close>.
\<close>

definition interpret_status :: "nat \<Rightarrow> nat \<Rightarrow> nat \<Rightarrow> task \<Rightarrow> (string option) completion" where
  "interpret_status len attempt totalTime t =
     (let status = task_status t in
      if status = JNum 2 then
        (case task_generated_image t of
           Some (g # gs) \<Rightarrow> Return (image_url g)
         | _ \<Rightarrow> Throw (Error ''Task completed but no generated images found''))
      else if status = JNum 3 \<or> status = JNum 4 then
        Throw (Error (''Task failed with status: '' @ js_toString status @ '' - ''
                      @ error_message_or_unknown t))
      else if status = JNum 0 \<or> status = JNum 1 then
        (let statusText = (if status = JNum 0 then ''PENDING'' else ''PROCESSING'') in
         if attempt \<ge> len then
           Throw (Error (''Task still '' @ statusText @ '' after '' @ show_nat (totalTime div 1000)
                         @ ''s - maximum wait time exceeded''))
         else Continue)
      else
        (if attempt \<ge> len then
           Throw (Error (''Task has unknown status '' @ js_toString status @ '' after ''
                         @ show_nat (totalTime div 1000) @ ''s''))
         else Continue))"

definition try_block :: "provider \<Rightarrow> nat \<Rightarrow> nat \<Rightarrow> nat \<Rightarrow> nat \<Rightarrow> (string option) completion" where
  "try_block p len attempt totalTime n =
     (case p n of
        Throws e \<Rightarrow> Throw e
      | Reply t \<Rightarrow> interpret_status len attempt totalTime t)"

definition polling_failed :: "nat \<Rightarrow> nat \<Rightarrow> js_error \<Rightarrow> js_error" where
  "polling_failed len totalTime e =
     Error (''Polling failed after '' @ show_nat len @ '' attempts (''
            @ show_nat (totalTime div 1000) @ ''s total): '' @ messageOr e ''Unknown error'')"

definition did_not_complete :: "nat \<Rightarrow> nat \<Rightarrow> js_error" where
  "did_not_complete len totalTime =
     Error (''Task did not complete within '' @ show_nat (totalTime div 1000) @ '' seconds (''
            @ show_nat len @ '' attempts)'')"

text \<open>The effects of one iteration before its try block completes: the wait, then the query.\<close>

definition iteration_events :: "nat \<Rightarrow> nat \<Rightarrow> poll_event list" where
  "iteration_events attempt delay = (if delay > 0 then [Wait delay] else []) @ [Query attempt]"

definition prepend_events :: "poll_event list \<Rightarrow> poll_event list \<times> 'a \<Rightarrow> poll_event list \<times> 'a" where
  "prepend_events evs r = (evs @ fst r, snd r)"

text \<open>
  The \<open>for (const { attempt, delay } of pollingSchedule)\<close> loop over the rest of the
  schedule, with \<open>totalTime\<close> and the number \<open>n\<close> of queries already issued. It
  returns the waits and queries performed, in order, and how the promise settles.
\<close>

fun poll_loop :: "provider \<Rightarrow> nat \<Rightarrow> (nat \<times> nat) list \<Rightarrow> nat \<Rightarrow> nat
    \<Rightarrow> poll_event list \<times> (js_error + string option)" where
  "poll_loop p len [] totalTime n = ([], Inl (did_not_complete len totalTime))"
| "poll_loop p len ((attempt, delay) # rest) totalTime n =
     (let totalTime' = (if delay > 0 then totalTime + delay else totalTime) in
      prepend_events (iteration_events attempt delay)
        (case try_block p len attempt totalTime' n of
           Return r \<Rightarrow> ([], Inr r)
         | Continue \<Rightarrow> poll_loop p len rest totalTime' (Suc n)
         | Throw e \<Rightarrow>
             (if attempt = len then ([], Inl (polling_failed len totalTime' e))
              else poll_loop p len rest totalTime' (Suc n))))"

definition pollTaskCompletion :: "provider \<Rightarrow> poll_event list \<times> (js_error + string option)" where
  "pollTaskCompletion p = poll_loop p (length pollingSchedule) pollingSchedule 0 0"

definition queries :: "poll_event list \<Rightarrow> nat list" where
  "queries evs = concat (map (\<lambda>e. case e of Query a \<Rightarrow> [a] | Wait d \<Rightarrow> []) evs)"

text \<open>Classification of a status reply, as the branches of the poller distinguish it.\<close>

definition still_pending :: "task \<Rightarrow> bool" where
  "still_pending t = (task_status t = JNum 0 \<or> task_status t = JNum 1)"

definition unknown_status :: "task \<Rightarrow> bool" where
  "unknown_status t = (task_status t \<notin> {JNum 0, JNum 1, JNum 2, JNum 3, JNum 4})"

definition full_schedule_events :: "poll_event list" where
  "full_schedule_events = [Query 1, Wait 38000, Query 2, Wait 25000, Query 3, Wait 30000, Query 4]"

text \<open>The message thrown inside the try block at the fourth attempt for a non-terminal status.\<close>

definition timeout_reason :: "task \<Rightarrow> string" where
  "timeout_reason t =
     (if task_status t = JNum 0 then ''Task still PENDING after 93s - maximum wait time exceeded''
      else if task_status t = JNum 1 then ''Task still PROCESSING after 93s - maximum wait time exceeded''
      else ''Task has unknown status '' @ js_toString (task_status t) @ '' after 93s'')"

text \<open>Mock providers used to exercise the poller.\<close>

definition pending_task :: task where
  "pending_task = \<lparr>task_status = JNum 0, task_generated_image = None, task_error_message = None\<rparr>"

definition done_task :: "string \<Rightarrow> task" where
  "done_task url = \<lparr>task_status = JNum 2,
      task_generated_image = Some [\<lparr>image_url = Some url\<rparr>], task_error_message = None\<rparr>"

definition pending_then_done :: provider where
  "pending_then_done k = (if k < 3 then Reply pending_task else Reply (done_task ''https://img/1.png''))"

definition always_pending :: provider where
  "always_pending k = Reply pending_task"

definition network_down :: provider where
  "network_down k = Throws (AxiosError ''Network Error'' None)"

section \<open>GeminiGenImageService.generateImage and generateBrandingImage\<close>

record image_branding_request =
  productName :: string
  platform :: string
  tone :: string
  flavor :: "string option"
  style :: "string option"

record image_metadata =
  format :: string
  generatedAt :: string
  dimensions :: string
  geminiGenRequestId :: string
  s3Key :: "string option"
  localPath :: string

record image_data =
  data_productName :: string
  data_platform :: string
  data_tone :: string
  data_style :: string
  generatedImage :: string
  imagePrompt :: string
  referenceImages :: "string list"
  productImages :: "string list"
  metadata :: image_metadata

record image_branding_response =
  success :: bool
  data :: "image_data option"
  error :: "string option"
  savedFilename :: "string option"
  viewUrl :: "string option"

record product =
  product_name :: string
  product_description :: "string option"
  product_category :: "string option"

record branding_content =
  caption :: string
  tagline :: string

record saved_image =
  filename :: string
  filepath :: string
  base64Image :: string
  s3Url :: "string option"
  saved_s3Key :: "string option"

text \<open>
  What the collaborators of one \<open>generateBrandingImage\<close> call do: each field is the
  outcome of the corresponding call (\<open>Inl\<close> when it throws or its promise rejects).
  \<open>post_uuid\<close> is \<open>response.data.uuid\<close> of the task-creation request, \<open>None\<close>
  when \<open>response.data && response.data.uuid\<close> is falsy.
\<close>

record gemini_env =
  apiKey :: string
  getProductData :: "js_error + product option"
  generateBrandingContent :: "js_error + branding_content"
  getFallbackBrandingContent :: "js_error + branding_content"
  buildBrandingPrompt :: "js_error + string"
  axios_post :: "js_error + string option"
  axios_post_fallback :: "js_error + string option"
  status_provider :: provider
  downloadAndSaveImage :: "js_error + saved_image"
  toISOString :: string

text \<open>\<open>a || b\<close> on optional strings: undefined and the empty string are falsy.\<close>

definition or_else :: "string option \<Rightarrow> string option \<Rightarrow> string option" where
  "or_else a b = (case a of Some x \<Rightarrow> (if x = [] then b else a) | None \<Rightarrow> b)"

definition response_status_is :: "js_error \<Rightarrow> int \<Rightarrow> bool" where
  "response_status_is e n = (case err_response e of Some r \<Rightarrow> resp_status r = n | None \<Rightarrow> False)"

text \<open>The catch block of \<open>generateImage\<close>.\<close>

definition generateImage_catch :: "js_error \<Rightarrow> js_error" where
  "generateImage_catch e =
     (if isAxiosError e then
        (let errorMsg =
           or_else (case err_response e of Some r \<Rightarrow> resp_data_message r | None \<Rightarrow> None)
          (or_else (case err_response e of Some r \<Rightarrow> resp_data_error r | None \<Rightarrow> None)
          (or_else (case err_response e of Some r \<Rightarrow> Some (resp_statusText r) | None \<Rightarrow> None)
                   (err_message e)))
         in Error (''GeminiGen API failed: '' @ (case errorMsg of Some m \<Rightarrow> m | None \<Rightarrow> [])))
      else e)"

text \<open>The try block of \<open>generateImage\<close>: create the task, poll it, check the result.\<close>

definition generateImage_try :: "gemini_env \<Rightarrow> js_error + (string \<times> string)" where
  "generateImage_try env =
     (let response =
        (case axios_post env of
           Inr r \<Rightarrow> Inr r
         | Inl e \<Rightarrow> (if isAxiosError e \<and> response_status_is e 500 then axios_post_fallback env
                     else Inl e))
      in case response of
           Inl e \<Rightarrow> Inl e
         | Inr None \<Rightarrow> Inl (Error ''Invalid response from GeminiGen API - no UUID found'')
         | Inr (Some taskId) \<Rightarrow>
             (if taskId = [] then Inl (Error ''Invalid response from GeminiGen API - no UUID found'')
              else case snd (pollTaskCompletion (status_provider env)) of
                     Inl e \<Rightarrow> Inl e
                   | Inr None \<Rightarrow> Inl (Error ''Task completed but no image URL found'')
                   | Inr (Some imageUrl) \<Rightarrow>
                       (if imageUrl = [] then Inl (Error ''Task completed but no image URL found'')
                        else Inr (imageUrl, taskId))))"

definition generateImage :: "gemini_env \<Rightarrow> js_error + (string \<times> string)" where
  "generateImage env =
     (case generateImage_try env of Inl e \<Rightarrow> Inl (generateImage_catch e) | Inr r \<Rightarrow> Inr r)"

definition style_or_minimalist :: "image_branding_request \<Rightarrow> string" where
  "style_or_minimalist request =
     (case style request of Some s \<Rightarrow> (if s = [] then ''minimalist'' else s) | None \<Rightarrow> ''minimalist'')"

text \<open>The try block of \<open>generateBrandingImage\<close>; \<open>Inl\<close> is a throw inside it.\<close>

definition generateBrandingImage_try :: "gemini_env \<Rightarrow> image_branding_request
    \<Rightarrow> js_error + image_branding_response" where
  "generateBrandingImage_try env request =
     (if apiKey env = [] then Inl (Error ''GeminiGen API key not configured'')
      else case getProductData env of
        Inl e \<Rightarrow> Inl e
      | Inr None \<Rightarrow> Inl (Error (''Product \"'' @ productName request @ ''\" not found''))
      | Inr (Some productData) \<Rightarrow>
          (case (case generateBrandingContent env of
                   Inr c \<Rightarrow> Inr c
                 | Inl e \<Rightarrow> getFallbackBrandingContent env) of
             Inl e \<Rightarrow> Inl e
           | Inr brandingContent \<Rightarrow>
               (case buildBrandingPrompt env of
                  Inl e \<Rightarrow> Inl e
                | Inr prompt \<Rightarrow>
                    (case generateImage env of
                       Inl e \<Rightarrow> Inl e
                     | Inr (imageUrl, requestId) \<Rightarrow>
                         (case downloadAndSaveImage env of
                            Inl e \<Rightarrow> Inl e
                          | Inr savedImage \<Rightarrow>
                              Inr \<lparr>success = True,
                                   data = Some \<lparr>data_productName = productName request,
                                     data_platform = platform request,
                                     data_tone = tone request,
                                     data_style = style_or_minimalist request,
                                     generatedImage = base64Image savedImage,
                                     imagePrompt = prompt,
                                     referenceImages = [],
                                     productImages = [],
                                     metadata = \<lparr>format = ''base64_png'',
                                       generatedAt = toISOString env,
                                       dimensions = ''1024x1024'',
                                       geminiGenRequestId = requestId,
                                       s3Key = saved_s3Key savedImage,
                                       localPath = filepath savedImage\<rparr>\<rparr>,
                                   error = None,
                                   savedFilename = Some (filename savedImage),
                                   viewUrl = Some (case or_else (s3Url savedImage) None of
                                       Some u \<Rightarrow> u
                                     | None \<Rightarrow> ''http://localhost:3000/api/image-branding/view/''
                                                @ filename savedImage)\<rparr>)))))"

definition failure_response :: "string \<Rightarrow> image_branding_response" where
  "failure_response msg =
     \<lparr>success = False, data = None, error = Some msg, savedFilename = None, viewUrl = None\<rparr>"

text \<open>
  How the promise returned by \<open>generateBrandingImage\<close> settles: \<open>Inr\<close> when it
  resolves, \<open>Inl\<close> when it rejects. The catch block turns every throw into a value.
\<close>

definition generateBrandingImage :: "gemini_env \<Rightarrow> image_branding_request
    \<Rightarrow> js_error + image_branding_response" where
  "generateBrandingImage env request =
     (case generateBrandingImage_try env request of
        Inr r \<Rightarrow> Inr r
      | Inl e \<Rightarrow> Inr (failure_response (messageOr e ''Unknown error occurred'')))"

section \<open>RateLimitedImageService: error classification\<close>

definition startsWith :: "string \<Rightarrow> string \<Rightarrow> bool" where
  "startsWith s sub = (take (length sub) s = sub)"

text \<open>\<open>s.includes(sub)\<close> on strings\<close>

fun str_includes :: "string \<Rightarrow> string \<Rightarrow> bool" where
  "str_includes [] sub = (sub = [])"
| "str_includes (c # cs) sub = (startsWith (c # cs) sub \<or> str_includes cs sub)"

definition isRateLimitError :: "js_error \<Rightarrow> bool" where
  "isRateLimitError e =
     ((case err_message e of
         Some m \<Rightarrow> str_includes m ''Too Many Requests'' \<or> str_includes m ''429''
                   \<or> str_includes m ''RATE_LIMIT_ERROR''
       | None \<Rightarrow> False)
      \<or> response_status_is e 429)"

definition is_digit :: "char \<Rightarrow> bool" where
  "is_digit c = (c \<in> set ''0123456789'')"

text \<open>The ASCII characters matched by \<open>\s\<close>: space, tab, line feed, vertical tab, form feed, carriage return.\<close>

definition is_space :: "char \<Rightarrow> bool" where
  "is_space c = (c \<in> {CHR '' '', CHR 0x09, CHR 0x0A, CHR 0x0B, CHR 0x0C, CHR 0x0D})"

definition digit_value :: "char \<Rightarrow> nat" where
  "digit_value c = length (takeWhile (\<lambda>d. d \<noteq> c) ''0123456789'')"

definition digits_value :: "string \<Rightarrow> nat" where
  "digits_value ds = foldl (\<lambda>acc c. 10 * acc + digit_value c) 0 ds"

text \<open>
  \<open>parseInt(s, 10)\<close>: leading white space, an optional sign, then the longest run of
  digits; \<open>None\<close> is \<open>NaN\<close>.
\<close>

definition parseInt :: "string \<Rightarrow> int option" where
  "parseInt s =
     (let s1 = dropWhile is_space s;
          neg = (case s1 of c # r \<Rightarrow> c = CHR ''-'' | [] \<Rightarrow> False);
          s2 = (case s1 of c # r \<Rightarrow> (if c = CHR ''-'' \<or> c = CHR ''+'' then r else s1) | [] \<Rightarrow> s1);
          ds = takeWhile is_digit s2
      in if ds = [] then None
         else Some (if neg then - int (digits_value ds) else int (digits_value ds)))"

definition truthy :: "js_val \<Rightarrow> bool" where
  "truthy v = (case v of JUndefined \<Rightarrow> False | JNum n \<Rightarrow> n \<noteq> 0 | JStr s \<Rightarrow> s \<noteq> [])"

text \<open>
  \<open>extractRetryAfter\<close>: the first truthy of the four locations, else 0; then
  \<open>parseInt(retryAfter.toString(), 10) || 0\<close>. The result is in seconds.
\<close>

definition extractRetryAfter :: "js_error \<Rightarrow> int" where
  "extractRetryAfter e =
     (let retryAfter =
        (case err_response e of
           None \<Rightarrow> JNum 0
         | Some r \<Rightarrow>
             (if truthy (resp_data_detail_retry_after r) then resp_data_detail_retry_after r
              else if truthy (resp_data_retry_after r) then resp_data_retry_after r
              else if truthy (resp_header_retry_after r) then resp_header_retry_after r
              else if truthy (resp_header_Retry_After r) then resp_header_Retry_After r
              else JNum 0))
      in case parseInt (js_toString retryAfter) of Some n \<Rightarrow> n | None \<Rightarrow> 0)"

definition toLowerCase_char :: "char \<Rightarrow> char" where
  "toLowerCase_char c =
     (case map_of (zip ''ABCDEFGHIJKLMNOPQRSTUVWXYZ'' ''abcdefghijklmnopqrstuvwxyz'') c of
        Some l \<Rightarrow> l
      | None \<Rightarrow> c)"

text \<open>The character class \<open>['":\s]\<close> of the regular expression in \<open>getRetryAfterTime\<close>.\<close>

definition is_retry_separator :: "char \<Rightarrow> bool" where
  "is_retry_separator c = (c = CHR 0x27 \<or> c = CHR 0x22 \<or> c = CHR '':'' \<or> is_space c)"

text \<open>
  \<open>/retry_after['":\s]+(\d+)/i\<close> anchored at the start of \<open>s\<close>: the captured digits.
  The separator run and the digit run are both greedy and over disjoint character classes,
  so no backtracking changes the capture.
\<close>

definition retry_match_here :: "string \<Rightarrow> string option" where
  "retry_match_here s =
     (if map toLowerCase_char (take 11 s) = ''retry_after'' then
        (let r = drop 11 s;
             seps = takeWhile is_retry_separator r;
             ds = takeWhile is_digit (dropWhile is_retry_separator r)
         in if seps \<noteq> [] \<and> ds \<noteq> [] then Some ds else None)
      else None)"

text \<open>\<open>message.match(...)\<close>: the leftmost match.\<close>

fun retry_match :: "string \<Rightarrow> string option" where
  "retry_match [] = None"
| "retry_match (c # cs) =
     (case retry_match_here (c # cs) of Some ds \<Rightarrow> Some ds | None \<Rightarrow> retry_match cs)"

section \<open>RateLimitedImageService: state\<close>

record queued_request =
  timestamp :: nat
  promise :: nat
  requestData :: image_branding_request
  priority :: nat

text \<open>
  How a caller's promise settled. The \<open>resolve\<close> and \<open>reject\<close> callbacks of a
  \<open>QueuedRequest\<close> belong to one promise, which the field \<open>promise\<close> names by number;
  the promise returned by the async \<open>generateBrandingImage\<close> adopts it
  (\<open>return await this.queueRequest(request)\<close>), so both carry the same number.
\<close>

datatype settlement = Resolved image_branding_response | Rejected js_error

text \<open>
  Where the single running \<open>processQueue\<close> invocation is suspended: not running,
  in the \<open>setTimeout(waitTime)\<close> before a dequeue (with the time the timer is due), in
  \<open>await this.geminiGenService.generateBrandingImage(queueItem.requestData)\<close>, or in the
  \<open>setTimeout(retryWait)\<close> after a rate-limit failure.
\<close>

datatype drain_state =
    Idle
  | SleepSlot nat
  | AwaitDownstream queued_request
  | SleepRetry nat

text \<open>
  History of the execution, kept for stating properties only: every invocation of the
  downstream \<open>geminiGenService.generateBrandingImage\<close> (time, promise, and whether the
  drain loop made it), every \<open>requestQueue.push\<close>, \<open>shift\<close> and \<open>unshift\<close>.
\<close>

datatype log_entry =
    Invoked nat nat bool
  | Pushed nat
  | Shifted nat
  | Unshifted nat

record service =
  requestQueue :: "queued_request list"
  requestTimestamps :: "nat list"
  isProcessingQueue :: bool
  drain :: drain_state
  inflight :: "(nat \<times> image_branding_request) list"
  promises :: "nat \<Rightarrow> settlement option"
  nextPromise :: nat
  history :: "log_entry list"

definition maxRequestsPerMinute :: nat where
  "maxRequestsPerMinute = 5"

definition requestWindow :: nat where
  "requestWindow = 60 * 1000"

definition initial :: service where
  "initial = \<lparr>requestQueue = [], requestTimestamps = [], isProcessingQueue = False,
     drain = Idle, inflight = [], promises = (\<lambda>p. None), nextPromise = 0, history = []\<rparr>"

section \<open>RateLimitedImageService: operations\<close>

text \<open>
  Every operation takes the value \<open>now\<close> that \<open>Date.now()\<close> returns while it runs and
  the state of the service, and returns the new state (with a result, if it has one).
  \<open>now - timestamp\<close> is a natural-number difference: it is 0 where the JavaScript
  difference is negative, and both are below \<open>requestWindow\<close> then.
\<close>

definition cleanOldTimestamps :: "nat \<Rightarrow> service \<Rightarrow> service" where
  "cleanOldTimestamps now s =
     s\<lparr>requestTimestamps := filter (\<lambda>timestamp. now - timestamp < requestWindow) (requestTimestamps s)\<rparr>"

definition canMakeRequest :: "nat \<Rightarrow> service \<Rightarrow> bool \<times> service" where
  "canMakeRequest now s =
     (let s1 = cleanOldTimestamps now s
      in (length (requestTimestamps s1) < maxRequestsPerMinute, s1))"

definition addRequestTimestamp :: "nat \<Rightarrow> service \<Rightarrow> service" where
  "addRequestTimestamp now s = s\<lparr>requestTimestamps := requestTimestamps s @ [now]\<rparr>"

definition getNextAvailableTime :: "nat \<Rightarrow> service \<Rightarrow> nat \<times> service" where
  "getNextAvailableTime now s =
     (let s1 = cleanOldTimestamps now s
      in case requestTimestamps s1 of
           [] \<Rightarrow> (0, s1)
         | oldestRequest # rest \<Rightarrow>
             (if length (requestTimestamps s1) < maxRequestsPerMinute then (0, s1)
              else (oldestRequest + requestWindow - now, s1)))"

record rate_limit_status =
  requestsInCurrentWindow :: nat
  status_maxRequestsPerMinute :: nat
  queueLength :: nat
  status_canMakeRequest :: bool
  nextAvailableIn :: nat

definition getRateLimitStatus :: "nat \<Rightarrow> service \<Rightarrow> rate_limit_status \<times> service" where
  "getRateLimitStatus now s =
     (let s1 = cleanOldTimestamps now s;
          (can, s2) = canMakeRequest now s1;
          (next, s3) = getNextAvailableTime now s2
      in (\<lparr>requestsInCurrentWindow = length (requestTimestamps s1),
           status_maxRequestsPerMinute = maxRequestsPerMinute,
           queueLength = length (requestQueue s1),
           status_canMakeRequest = can,
           nextAvailableIn = next\<rparr>, s3))"

definition logRateLimitStatus :: "nat \<Rightarrow> service \<Rightarrow> service" where
  "logRateLimitStatus now s = snd (getRateLimitStatus now s)"

text \<open>\<open>resolve\<close> or \<open>reject\<close> of a promise: it settles once, later calls do nothing.\<close>

definition settle :: "nat \<Rightarrow> settlement \<Rightarrow> service \<Rightarrow> service" where
  "settle p v s = (if promises s p = None then s\<lparr>promises := (promises s)(p \<mapsto> v)\<rparr> else s)"

definition record_history :: "log_entry \<Rightarrow> service \<Rightarrow> service" where
  "record_history entry s = s\<lparr>history := history s @ [entry]\<rparr>"

text \<open>
  The rest of a \<open>processQueue\<close> loop iteration after the wait (or without one):
  \<open>shift\<close>, \<open>break\<close> on an empty queue, otherwise record the admission, log the
  status and call the downstream; the loop is then suspended in the \<open>await\<close>.
\<close>

definition processQueue_dequeue :: "nat \<Rightarrow> service \<Rightarrow> service" where
  "processQueue_dequeue now s =
     (case requestQueue s of
        [] \<Rightarrow> s\<lparr>isProcessingQueue := False, drain := Idle\<rparr>
      | queueItem # rest \<Rightarrow>
          (let s1 = record_history (Shifted (promise queueItem)) (s\<lparr>requestQueue := rest\<rparr>);
               s2 = addRequestTimestamp now s1;
               s3 = logRateLimitStatus now s2;
               s4 = record_history (Invoked now (promise queueItem) True) s3
           in s4\<lparr>drain := AwaitDownstream queueItem\<rparr>))"

text \<open>
  The head of \<open>while (this.requestQueue.length > 0)\<close>, up to the next suspension; when
  the queue is empty the loop ends and \<open>isProcessingQueue\<close> is cleared.
\<close>

definition processQueue_while :: "nat \<Rightarrow> service \<Rightarrow> service" where
  "processQueue_while now s =
     (if requestQueue s \<noteq> [] then
        (let (waitTime, s1) = getNextAvailableTime now s
         in if waitTime > 0 then s1\<lparr>drain := SleepSlot (now + waitTime)\<rparr>
            else processQueue_dequeue now s1)
      else s\<lparr>isProcessingQueue := False, drain := Idle\<rparr>)"

definition processQueue :: "nat \<Rightarrow> service \<Rightarrow> service" where
  "processQueue now s =
     (if isProcessingQueue s \<or> requestQueue s = [] then s
      else processQueue_while now (s\<lparr>isProcessingQueue := True\<rparr>))"

text \<open>
  \<open>queueRequest\<close>, with \<open>p\<close> the promise it creates. \<open>Array.prototype.sort\<close> is
  stable, as is \<open>sort_key\<close>.
\<close>

definition queueRequest :: "nat \<Rightarrow> image_branding_request \<Rightarrow> nat \<Rightarrow> service \<Rightarrow> service" where
  "queueRequest now request p s =
     (let s1 = record_history (Pushed p)
                 (s\<lparr>requestQueue := requestQueue s @
                      [\<lparr>timestamp = now, promise = p, requestData = request, priority = 1\<rparr>]\<rparr>);
          s2 = s1\<lparr>requestQueue := sort_key timestamp (requestQueue s1)\<rparr>;
          s3 = logRateLimitStatus now s2
      in processQueue now s3)"

definition getRetryAfterTime :: "js_error \<Rightarrow> nat \<Rightarrow> service \<Rightarrow> nat \<times> service" where
  "getRetryAfterTime e now s =
     (case retry_match (case err_message e of Some m \<Rightarrow> m | None \<Rightarrow> []) of
        Some ds \<Rightarrow> (digits_value ds * 1000, s)
      | None \<Rightarrow>
          (let (next, s1) = getNextAvailableTime now s
           in (if next = 0 then 60000 else next, s1)))"

text \<open>
  The fast path of the wrapper's \<open>generateBrandingImage\<close> up to its \<open>await\<close>, or the
  queue path; \<open>p\<close> is the promise the async function returns.
\<close>

definition generateBrandingImage_rateLimited :: "image_branding_request \<Rightarrow> nat \<Rightarrow> service \<Rightarrow> service" where
  "generateBrandingImage_rateLimited request now s =
     (let p = nextPromise s;
          s0 = s\<lparr>nextPromise := Suc p\<rparr>;
          (can, s1) = canMakeRequest now s0
      in if can then
           (let s2 = addRequestTimestamp now s1;
                s3 = record_history (Invoked now p False) s2
            in s3\<lparr>inflight := inflight s3 @ [(p, request)]\<rparr>)
         else queueRequest now request p s1)"

definition rate_limit_message :: "int \<Rightarrow> string" where
  "rate_limit_message retryAfter =
     ''API rate limit exceeded. Please try again in '' @ show_int (retryAfter div 60) @ '' minutes.''"

text \<open>
  The continuation of the fast path when the downstream promise of call \<open>p\<close> has
  settled with \<open>outcome\<close>.
\<close>

definition generateBrandingImage_settled :: "nat \<Rightarrow> image_branding_request
    \<Rightarrow> js_error + image_branding_response \<Rightarrow> nat \<Rightarrow> service \<Rightarrow> service" where
  "generateBrandingImage_settled p request outcome now s =
     (let s0 = s\<lparr>inflight := filter (\<lambda>c. fst c \<noteq> p) (inflight s)\<rparr>
      in case outcome of
           Inr result \<Rightarrow> settle p (Resolved result) s0
         | Inl e \<Rightarrow>
             (if isRateLimitError e then
                (let retryAfter = extractRetryAfter e;
                     s1 = s0\<lparr>requestTimestamps := butlast (requestTimestamps s0)\<rparr>
                 in if retryAfter > 300 then
                      settle p (Resolved (failure_response (rate_limit_message retryAfter))) s1
                    else queueRequest now request p s1)
              else settle p (Rejected e) s0))"

text \<open>
  The continuation of the drain loop when the downstream promise of \<open>queueItem\<close> has
  settled with \<open>outcome\<close>.
\<close>

definition processQueue_settled :: "queued_request \<Rightarrow> js_error + image_branding_response
    \<Rightarrow> nat \<Rightarrow> service \<Rightarrow> service" where
  "processQueue_settled queueItem outcome now s =
     (case outcome of
        Inr result \<Rightarrow> processQueue_while now (settle (promise queueItem) (Resolved result) s)
      | Inl e \<Rightarrow>
          (if isRateLimitError e then
             (let s1 = s\<lparr>requestTimestamps := butlast (requestTimestamps s)\<rparr>;
                  s2 = record_history (Unshifted (promise queueItem))
                         (s1\<lparr>requestQueue := queueItem # requestQueue s1\<rparr>);
                  (retryWait, s3) = getRetryAfterTime e now s2
              in s3\<lparr>drain := SleepRetry (now + retryWait)\<rparr>)
           else processQueue_while now (settle (promise queueItem) (Rejected e) s)))"

definition queue_clear_error :: js_error where
  "queue_clear_error = Error ''Request cancelled due to queue clear''"

definition clearQueue :: "service \<Rightarrow> service" where
  "clearQueue s =
     (foldl (\<lambda>s' item. settle (promise item) (Rejected queue_clear_error) s') s (requestQueue s))
       \<lparr>requestQueue := []\<rparr>"

section \<open>RateLimitedImageService: executions\<close>

text \<open>
  Under the single-threaded event loop an execution is a sequence of turns, each running
  to its next \<open>await\<close>: a caller invokes \<open>generateBrandingImage\<close>; the downstream
  promise of call \<open>p\<close> settles; the drain loop's timer fires; \<open>clearQueue\<close> or
  \<open>getRateLimitStatus\<close> is called. A timer never fires before it is due.
\<close>

datatype event =
    Submit image_branding_request nat
  | Settle nat "js_error + image_branding_response" nat
  | TimerFires nat
  | ClearQueue
  | GetStatus nat

definition timerFires :: "nat \<Rightarrow> service \<Rightarrow> service" where
  "timerFires now s =
     (case drain s of
        SleepSlot due \<Rightarrow> (if due \<le> now then processQueue_dequeue now s else s)
      | SleepRetry due \<Rightarrow> (if due \<le> now then processQueue_while now s else s)
      | _ \<Rightarrow> s)"

definition downstreamSettles :: "nat \<Rightarrow> js_error + image_branding_response \<Rightarrow> nat \<Rightarrow> service \<Rightarrow> service" where
  "downstreamSettles p outcome now s =
     (case drain s of
        AwaitDownstream queueItem \<Rightarrow>
          (if promise queueItem = p then processQueue_settled queueItem outcome now s
           else (case map_of (inflight s) p of
                   Some request \<Rightarrow> generateBrandingImage_settled p request outcome now s
                 | None \<Rightarrow> s))
      | _ \<Rightarrow>
          (case map_of (inflight s) p of
             Some request \<Rightarrow> generateBrandingImage_settled p request outcome now s
           | None \<Rightarrow> s))"

fun step :: "event \<Rightarrow> service \<Rightarrow> service" where
  "step (Submit request now) s = generateBrandingImage_rateLimited request now s"
| "step (Settle p outcome now) s = downstreamSettles p outcome now s"
| "step (TimerFires now) s = timerFires now s"
| "step ClearQueue s = clearQueue s"
| "step (GetStatus now) s = logRateLimitStatus now s"

definition run :: "event list \<Rightarrow> service \<Rightarrow> service" where
  "run evs s = foldl (\<lambda>s' e. step e s') s evs"

text \<open>The number of recorded admissions newer than \<open>now - requestWindow\<close>.\<close>

definition window_count :: "nat \<Rightarrow> service \<Rightarrow> nat" where
  "window_count now s = length (filter (\<lambda>t. now - t < requestWindow) (requestTimestamps s))"

text \<open>The downstream invocations started in the trailing window ending at \<open>now\<close>.\<close>

definition invocations_in_window :: "nat \<Rightarrow> service \<Rightarrow> nat list" where
  "invocations_in_window now s =
     concat (map (\<lambda>entry. case entry of
                     Invoked t p d \<Rightarrow> (if t \<le> now \<and> now - t < requestWindow then [p] else [])
                   | _ \<Rightarrow> []) (history s))"


definition pushed :: "service \<Rightarrow> nat list" where
  "pushed s = concat (map (\<lambda>entry. case entry of Pushed p \<Rightarrow> [p] | _ \<Rightarrow> []) (history s))"

definition shifted :: "service \<Rightarrow> nat list" where
  "shifted s = concat (map (\<lambda>entry. case entry of Shifted p \<Rightarrow> [p] | _ \<Rightarrow> []) (history s))"

section \<open>Sample inputs\<close>

definition sample_request :: image_branding_request where
  "sample_request = \<lparr>productName = ''Good Day'', platform = ''instagram'', tone = ''youth'',
     flavor = None, style = None\<rparr>"






text \<open>
  Five requests admitted at 0 ms and 1000 ms fill the window; the sixth (promise 5) is
  queued at 2000 ms and the drain loop sleeps until 60000 ms. A seventh request arrives at
  60000 ms, when the first admission has expired, and the timer callback runs at 60001 ms.
\<close>

definition overshoot_trace :: "event list" where
  "overshoot_trace =
     [Submit sample_request 0, Submit sample_request 1000, Submit sample_request 1000,
      Submit sample_request 1000, Submit sample_request 1000, Submit sample_request 2000,
      Submit sample_request 60000, TimerFires 60001]"




section \<open>Promises awaiting settlement\<close>

text \<open>
  The promises of the requests the service still holds: those in the queue, those whose
  fast-path call is in flight, and the one the drain loop is awaiting.
\<close>

definition pending_ids :: "service \<Rightarrow> nat list" where
  "pending_ids s = map promise (requestQueue s) @ map fst (inflight s)
     @ (case drain s of AwaitDownstream q \<Rightarrow> [promise q] | _ \<Rightarrow> [])"

text \<open>
  \<open>unsettled pr n ps\<close>: the promises \<open>ps\<close> are pairwise different, were created
  (\<open>n\<close> is the next promise to create) and none of them, nor any promise not yet
  created, has settled.
\<close>

definition unsettled :: "(nat \<Rightarrow> settlement option) \<Rightarrow> nat \<Rightarrow> nat list \<Rightarrow> bool" where
  "unsettled pr n ps = (distinct ps \<and> (\<forall>p\<in>set ps. p < n \<and> pr p = None)
     \<and> (\<forall>p. n \<le> p \<longrightarrow> pr p = None))"

definition consistent :: "service \<Rightarrow> bool" where
  "consistent s = (unsettled (promises s) (nextPromise s) (pending_ids s)
     \<and> (isProcessingQueue s \<longleftrightarrow> drain s \<noteq> Idle))"


text \<open>Two requests wait in the queue behind a full window.\<close>

definition clear_trace :: "event list" where
  "clear_trace =
     [Submit sample_request 0, Submit sample_request 0, Submit sample_request 0,
      Submit sample_request 0, Submit sample_request 0,
      Submit sample_request 10, Submit sample_request 10]"

section \<open>Arrival order\<close>



text \<open>
  The queue is sorted by arrival time, no arrival is later than \<open>t\<close>, the queued
  requests are the last ones pushed, in the order of their push, and those shifted before
  were shifted in the order of their push.
\<close>

definition fifo :: "nat \<Rightarrow> service \<Rightarrow> bool" where
  "fifo t s = (sorted (map timestamp (requestQueue s))
     \<and> (\<forall>q\<in>set (requestQueue s). timestamp q \<le> t)
     \<and> (\<exists>served. pushed s = served @ map promise (requestQueue s)
           \<and> subseq (shifted s) served))"


section \<open>Rate-limited failures\<close>

text \<open>The request of promise \<open>p\<close> is in the queue or is the one the drain loop is awaiting.\<close>

definition held :: "service \<Rightarrow> nat \<Rightarrow> bool" where
  "held s p = (p \<in> promise ` set (requestQueue s)
     \<or> (case drain s of AwaitDownstream queueItem \<Rightarrow> promise queueItem = p | _ \<Rightarrow> False))"



section \<open>Properties of the poller\<close>

lemma show_nat_4: "show_nat 4 = ''4''"
  by (simp add: show_nat.simps digit_char_def)

lemma show_nat_93: "show_nat 93 = ''93''"
  by (simp add: show_nat.simps digit_char_def)

lemma try_block_nonterminal:
  "p n = Reply t \<Longrightarrow> still_pending t \<or> unknown_status t \<Longrightarrow> attempt < len \<Longrightarrow>
   try_block p len attempt tt n = Continue"
  by (auto simp add: try_block_def interpret_status_def still_pending_def unknown_status_def Let_def)

lemma try_block_success:
  "p n = Reply t \<Longrightarrow> task_status t = JNum 2 \<Longrightarrow> task_generated_image t = Some (g # gs) \<Longrightarrow>
   try_block p len attempt tt n = Return (image_url g)"
  by (simp add: try_block_def interpret_status_def)

lemma total_time_step: "(if 0 < delay then tt + delay else tt) = tt + (delay::nat)"
  by simp

lemma poll_loop_Continue:
  "try_block p len attempt (tt + delay) n = Continue \<Longrightarrow>
   poll_loop p len ((attempt, delay) # rest) tt n =
     prepend_events (iteration_events attempt delay) (poll_loop p len rest (tt + delay) (Suc n))"
  by (simp add: Let_def total_time_step)

lemma poll_loop_Return:
  "try_block p len attempt (tt + delay) n = Return r \<Longrightarrow>
   poll_loop p len ((attempt, delay) # rest) tt n = (iteration_events attempt delay, Inr r)"
  by (simp add: Let_def prepend_events_def total_time_step)

lemma poll_loop_Throw_final:
  "try_block p len len (tt + delay) n = Throw e \<Longrightarrow>
   poll_loop p len ((len, delay) # rest) tt n =
     (iteration_events len delay, Inl (polling_failed len (tt + delay) e))"
  by (simp add: Let_def prepend_events_def total_time_step)

lemma poll_loop_Throw_nonfinal:
  "try_block p len attempt (tt + delay) n = Throw e \<Longrightarrow> attempt \<noteq> len \<Longrightarrow>
   poll_loop p len ((attempt, delay) # rest) tt n =
     prepend_events (iteration_events attempt delay) (poll_loop p len rest (tt + delay) (Suc n))"
  by (simp add: Let_def total_time_step)

lemma length_pollingSchedule: "length pollingSchedule = 4"
  by (simp add: pollingSchedule_def)

lemma pollTaskCompletion_unfold:
  "pollTaskCompletion p = poll_loop p 4 [(Suc 0, 0), (2, 38000), (3, 25000), (4, 30000)] 0 0"
  by (simp add: pollTaskCompletion_def length_pollingSchedule) (simp add: pollingSchedule_def)

declare poll_loop.simps(2) [simp del]

text \<open>Three non-terminal replies lead to the fourth query with 63000 ms accumulated.\<close>

lemma three_nonterminal:
  assumes "\<forall>k<3. \<exists>t. p k = Reply t \<and> (still_pending t \<or> unknown_status t)"
  shows "pollTaskCompletion p =
     prepend_events [Query 1, Wait 38000, Query 2, Wait 25000, Query 3]
       (poll_loop p 4 [(4, 30000)] 63000 (Suc (Suc (Suc 0))))"
proof -
  have "(0::nat) < 3" by simp
  then obtain t1 where t1: "p 0 = Reply t1" "still_pending t1 \<or> unknown_status t1"
    using assms by blast
  have "Suc 0 < 3" by simp
  then obtain t2 where t2: "p (Suc 0) = Reply t2" "still_pending t2 \<or> unknown_status t2"
    using assms by blast
  have "Suc (Suc 0) < 3" by simp
  then obtain t3 where t3: "p (Suc (Suc 0)) = Reply t3" "still_pending t3 \<or> unknown_status t3"
    using assms by blast
  have s1: "try_block p 4 (Suc 0) (0 + 0) 0 = Continue"
    using t1 by (simp add: try_block_nonterminal)
  have s2: "try_block p 4 2 (0 + 38000) (Suc 0) = Continue"
    using t2 by (simp add: try_block_nonterminal)
  have s3: "try_block p 4 3 (38000 + 25000) (Suc (Suc 0)) = Continue"
    using t3 by (simp add: try_block_nonterminal)
  show ?thesis
    by (simp add: pollTaskCompletion_unfold poll_loop_Continue [OF s1] poll_loop_Continue [OF s2]
        poll_loop_Continue [OF s3] prepend_events_def iteration_events_def)
qed

text \<open>
  C3: when the status query answers still-pending (status 0 or 1) on the first three
  attempts and completed with an image on the fourth, the poller issues exactly four status
  queries, waits 38000 ms, 25000 ms and 30000 ms before the second, third and fourth (each
  wait starts when the previous attempt has completed; nothing is awaited before the first),
  and returns the image URL of the fourth reply.
\<close>

theorem poll_schedule_adherence:
  assumes "\<forall>k<3. \<exists>t. p k = Reply t \<and> still_pending t"
    and "p 3 = Reply t4" and "task_status t4 = JNum 2"
    and "task_generated_image t4 = Some (g # gs)"
  shows "pollTaskCompletion p = (full_schedule_events, Inr (image_url g))"
proof -
  have "p (Suc (Suc (Suc 0))) = Reply t4"
    using assms(2) by (simp add: numeral_3_eq_3)
  then have "try_block p 4 4 (63000 + 30000) (Suc (Suc (Suc 0))) = Return (image_url g)"
    using assms(3,4) by (rule try_block_success)
  then have "poll_loop p 4 [(4, 30000)] 63000 (Suc (Suc (Suc 0))) =
      ([Wait 30000, Query 4], Inr (image_url g))"
    by (simp add: poll_loop_Return iteration_events_def)
  moreover have "\<forall>k<3. \<exists>t. p k = Reply t \<and> (still_pending t \<or> unknown_status t)"
    using assms(1) by blast
  ultimately show ?thesis
    using three_nonterminal [of p] by (simp add: prepend_events_def full_schedule_events_def)
qed

lemma try_block_final_nonterminal:
  "p n = Reply t \<Longrightarrow> still_pending t \<or> unknown_status t \<Longrightarrow>
   try_block p 4 4 93000 n = Throw (Error (timeout_reason t))"
  by (auto simp add: try_block_def interpret_status_def still_pending_def unknown_status_def
      timeout_reason_def show_nat_93 Let_def)

lemma poll_all_nonterminal:
  assumes "\<forall>k. \<exists>t. p k = Reply t \<and> (still_pending t \<or> unknown_status t)"
  shows "\<exists>t. p 3 = Reply t \<and>
     pollTaskCompletion p =
       (full_schedule_events,
        Inl (Error (''Polling failed after 4 attempts (93s total): '' @ timeout_reason t)))"
proof -
  obtain t where t: "p 3 = Reply t" "still_pending t \<or> unknown_status t"
    using assms by blast
  have "p (Suc (Suc (Suc 0))) = Reply t"
    using t(1) by (simp add: numeral_3_eq_3)
  then have "try_block p 4 4 (63000 + 30000) (Suc (Suc (Suc 0))) = Throw (Error (timeout_reason t))"
    using try_block_final_nonterminal [of p "Suc (Suc (Suc 0))" t] t(2) by simp
  then have "poll_loop p 4 [(4, 30000)] 63000 (Suc (Suc (Suc 0))) =
      ([Wait 30000, Query 4], Inl (polling_failed 4 (63000 + 30000) (Error (timeout_reason t))))"
    using poll_loop_Throw_final [of p 4 63000 30000 "Suc (Suc (Suc 0))" "Error (timeout_reason t)" "[]"]
    by (simp add: iteration_events_def)
  moreover have "polling_failed 4 (63000 + 30000) (Error (timeout_reason t)) =
      Error (''Polling failed after 4 attempts (93s total): '' @ timeout_reason t)"
    by (simp add: polling_failed_def show_nat_4 show_nat_93 messageOr_def)
  moreover have "\<forall>k<3. \<exists>t. p k = Reply t \<and> (still_pending t \<or> unknown_status t)"
    using assms by blast
  ultimately show ?thesis
    using three_nonterminal [of p] t(1) by (simp add: prepend_events_def full_schedule_events_def)
qed

text \<open>
  C4: when every status query answers still-pending or an unknown status, the poller ends
  after the four scheduled attempts, never issuing a fifth query, and rejects with an error
  whose message carries the attempt count (4) and the accumulated time (93 s).
\<close>

theorem poll_timeout:
  assumes "\<forall>k. \<exists>t. p k = Reply t \<and> (still_pending t \<or> unknown_status t)"
  shows "\<exists>t. p 3 = Reply t \<and>
     pollTaskCompletion p =
       (full_schedule_events,
        Inl (Error (''Polling failed after 4 attempts (93s total): '' @ timeout_reason t)))"
  using assms by (rule poll_all_nonterminal)

lemma drop_pollingSchedule:
  assumes "drop i pollingSchedule = (attempt, delay) # rest"
  shows "attempt = Suc i \<and> (attempt = length pollingSchedule \<longleftrightarrow> rest = [])"
proof -
  have "i < 4" using assms by (cases "i < 4") (simp_all add: pollingSchedule_def)
  then consider "i = 0" | "i = 1" | "i = 2" | "i = 3" by linarith
  then show ?thesis
    using assms by cases (auto simp add: pollingSchedule_def)
qed

text \<open>
  C6: when the status query of a scheduled attempt throws, then at an attempt that is not
  the last of the schedule the loop goes on with the rest of the schedule, starting with the
  wait and the query of the next scheduled attempt, and at the last attempt the poller
  rejects with the "Polling failed after 4 attempts" error, without any further query.
\<close>

theorem status_query_throws:
  assumes "drop i pollingSchedule = (attempt, delay) # rest" and "p n = Throws e"
  shows "(rest \<noteq> [] \<longrightarrow>
            poll_loop p (length pollingSchedule) ((attempt, delay) # rest) tt n =
              prepend_events (iteration_events attempt delay)
                (poll_loop p (length pollingSchedule) rest (tt + delay) (Suc n))
          \<and> iteration_events (fst (hd rest)) (snd (hd rest)) =
              take (length (iteration_events (fst (hd rest)) (snd (hd rest))))
                (fst (poll_loop p (length pollingSchedule) rest (tt + delay) (Suc n))))
       \<and> (rest = [] \<longrightarrow>
            poll_loop p (length pollingSchedule) ((attempt, delay) # rest) tt n =
              (iteration_events attempt delay,
               Inl (Error (''Polling failed after 4 attempts ('' @ show_nat ((tt + delay) div 1000)
                           @ ''s total): '' @ messageOr e ''Unknown error''))))"
proof -
  have tb: "try_block p (length pollingSchedule) attempt (tt + delay) n = Throw e"
    using assms(2) by (simp add: try_block_def)
  have fin: "attempt = length pollingSchedule \<longleftrightarrow> rest = []"
    using drop_pollingSchedule [OF assms(1)] by blast
  show ?thesis
  proof (cases "rest = []")
    case True
    then have "attempt = length pollingSchedule" using fin by simp
    then show ?thesis
      using True tb poll_loop_Throw_final [of p "length pollingSchedule" tt delay n e rest]
      by (simp add: polling_failed_def length_pollingSchedule show_nat_4)
  next
    case False
    then have ne: "attempt \<noteq> length pollingSchedule" using fin by simp
    obtain a d rest' where r: "rest = (a, d) # rest'" using False by (cases rest) auto
    have "fst (poll_loop p (length pollingSchedule) rest (tt + delay) (Suc n)) =
        iteration_events a d @
        fst (case try_block p (length pollingSchedule) a (tt + delay + d) (Suc n) of
           Return r \<Rightarrow> ([], Inr r)
         | Continue \<Rightarrow> poll_loop p (length pollingSchedule) rest' (tt + delay + d) (Suc (Suc n))
         | Throw e \<Rightarrow>
             (if a = length pollingSchedule
              then ([], Inl (polling_failed (length pollingSchedule) (tt + delay + d) e))
              else poll_loop p (length pollingSchedule) rest' (tt + delay + d) (Suc (Suc n))))"
      by (simp add: r Let_def prepend_events_def total_time_step poll_loop.simps(2))
    then show ?thesis
      using False poll_loop_Throw_nonfinal [OF tb ne, of rest] by (simp add: r)
  qed
qed

theorem poll_schedule_adherence_witness:
  "pollTaskCompletion pending_then_done = (full_schedule_events, Inr (Some ''https://img/1.png''))"
  using poll_schedule_adherence [of pending_then_done "done_task ''https://img/1.png''"
      "\<lparr>image_url = Some ''https://img/1.png''\<rparr>" "[]"]
  by (simp add: pending_then_done_def done_task_def pending_task_def still_pending_def)

theorem poll_timeout_witness:
  "pollTaskCompletion always_pending =
     (full_schedule_events,
      Inl (Error (''Polling failed after 4 attempts (93s total): '' @
                  ''Task still PENDING after 93s - maximum wait time exceeded'')))"
  using poll_timeout [of always_pending]
  by (simp add: always_pending_def pending_task_def still_pending_def timeout_reason_def)

theorem status_query_throws_witness:
  "poll_loop network_down (length pollingSchedule) [(4, 30000)] 63000 3 =
     ([Wait 30000, Query 4],
      Inl (Error ''Polling failed after 4 attempts (93s total): Network Error''))
   \<and> poll_loop network_down (length pollingSchedule) [(3, 25000), (4, 30000)] 38000 2 =
     prepend_events [Wait 25000, Query 3]
       (poll_loop network_down (length pollingSchedule) [(4, 30000)] 63000 3)"
  using status_query_throws [of 3 4 30000 "[]" network_down 3 "AxiosError ''Network Error'' None" 63000]
    status_query_throws [of 2 3 25000 "[(4, 30000)]" network_down 2
      "AxiosError ''Network Error'' None" 38000]
  by (simp add: pollingSchedule_def network_down_def iteration_events_def show_nat_93
      messageOr_def numeral_3_eq_3)

section \<open>The downstream never rejects\<close>

lemma generateBrandingImage_cases:
  "generateBrandingImage env request =
     (case generateBrandingImage_try env request of
        Inr r \<Rightarrow> Inr r
      | Inl e \<Rightarrow> Inr (failure_response (messageOr e ''Unknown error occurred'')))"
  by (simp add: generateBrandingImage_def)





section \<open>Executions of the rate-limited service\<close>

lemmas service_defs = run_def generateBrandingImage_rateLimited_def canMakeRequest_def
  cleanOldTimestamps_def addRequestTimestamp_def record_history_def queueRequest_def
  logRateLimitStatus_def getRateLimitStatus_def getNextAvailableTime_def processQueue_def
  processQueue_while_def processQueue_dequeue_def timerFires_def downstreamSettles_def
  generateBrandingImage_settled_def processQueue_settled_def settle_def clearQueue_def
  getRetryAfterTime_def maxRequestsPerMinute_def requestWindow_def initial_def Let_def



declare retry_match.simps [simp del]


text \<open>
  C1: the trailing window of 60000 ms never holds more than five downstream invocations,
  and \<open>requestTimestamps\<close> never holds more than five entries newer than
  \<open>now - 60000\<close>. In the execution below the drain loop computes its wait at 2000 ms,
  sleeps, and records its admission at 60001 ms without checking the window again, after
  a fast-path request took the freed slot at 60000 ms: six invocations started within the
  last 60000 ms and six recorded admissions are in the window.
\<close>

theorem window_overshoot:
  "requestTimestamps (run overshoot_trace initial) = [1000, 1000, 1000, 1000, 60000, 60001]
   \<and> window_count 60001 (run overshoot_trace initial) = 6
   \<and> invocations_in_window 60001 (run overshoot_trace initial) = [1, 2, 3, 4, 6, 5]"
proof -
  have ts: "requestTimestamps (run overshoot_trace initial) = [1000, 1000, 1000, 1000, 60000, 60001]"
    by (simp add: overshoot_trace_def service_defs)
  have h: "history (run overshoot_trace initial) =
      [Invoked 0 0 False, Invoked 1000 1 False, Invoked 1000 2 False, Invoked 1000 3 False,
       Invoked 1000 4 False, Pushed 5, Invoked 60000 6 False, Shifted 5, Invoked 60001 5 True]"
    by (simp add: overshoot_trace_def service_defs)
  show ?thesis
    by (simp add: ts h window_count_def invocations_in_window_def requestWindow_def)
qed

section \<open>Every held promise is pending\<close>

lemma distinct_mset_subseteq:
  assumes "distinct ps" and "mset qs \<subseteq># mset ps"
  shows "distinct qs"
proof -
  have "count (mset qs) a = (if a \<in> set qs then 1 else 0)" for a
  proof (cases "a \<in> set qs")
    case True
    have "count (mset qs) a \<le> count (mset ps) a"
      using assms(2) by (rule mset_subset_eq_count)
    moreover have "count (mset ps) a \<le> 1"
      using assms(1) by (simp add: distinct_count_atmost_1)
    moreover have "0 < count (mset qs) a"
      using True by simp
    ultimately have "count (mset qs) a = 1"
      by linarith
    then show ?thesis
      using True by (simp only: if_True)
  next
    case False
    then have "count (mset qs) a = 0"
      by simp
    then show ?thesis
      using False by (simp only: if_False)
  qed
  then show ?thesis
    by (simp add: distinct_count_atmost_1)
qed

lemma unsettled_mono:
  assumes "unsettled pr n ps" and "mset qs \<subseteq># mset ps"
  shows "unsettled pr n qs"
proof -
  have "distinct qs"
    using assms distinct_mset_subseteq by (auto simp add: unsettled_def)
  moreover have "set qs \<subseteq> set ps"
    using assms(2) set_mset_mono by fastforce
  ultimately show ?thesis
    using assms(1) by (auto simp add: unsettled_def)
qed

lemma unsettled_settle:
  assumes "unsettled pr n ps" and "p \<notin> set ps" and "p < n"
  shows "unsettled (pr(p \<mapsto> v)) n ps"
  using assms by (auto simp add: unsettled_def)

lemma unsettled_fresh:
  assumes "unsettled pr n ps"
  shows "unsettled pr (Suc n) (n # ps)"
  using assms by (auto simp add: unsettled_def)

lemma unsettled_member:
  assumes "unsettled pr n ps" and "p \<in> set ps"
  shows "p < n" and "pr p = None"
  using assms by (auto simp add: unsettled_def)

lemma unsettled_distinct: "unsettled pr n ps \<Longrightarrow> distinct ps"
  by (simp add: unsettled_def)

lemma snd_getNextAvailableTime: "snd (getNextAvailableTime now s) = cleanOldTimestamps now s"
  by (simp add: getNextAvailableTime_def Let_def split: list.splits)

lemma snd_canMakeRequest: "snd (canMakeRequest now s) = cleanOldTimestamps now s"
  by (simp add: canMakeRequest_def Let_def)

lemma cleanOldTimestamps_idem:
  "cleanOldTimestamps now (cleanOldTimestamps now s) = cleanOldTimestamps now s"
  by (simp add: cleanOldTimestamps_def)

lemma logRateLimitStatus_eq: "logRateLimitStatus now s = cleanOldTimestamps now s"
proof -
  have "snd (getNextAvailableTime now (snd (canMakeRequest now (cleanOldTimestamps now s))))
      = cleanOldTimestamps now s"
    by (simp add: snd_getNextAvailableTime snd_canMakeRequest cleanOldTimestamps_idem)
  then show ?thesis
    by (simp add: logRateLimitStatus_def getRateLimitStatus_def Let_def split_beta)
qed

text \<open>Operations on the timestamps and the history leave the promises and the queue alone.\<close>

lemma consistent_frame:
  "consistent (s\<lparr>requestTimestamps := ts\<rparr>) = consistent s"
  "consistent (s\<lparr>history := h\<rparr>) = consistent s"
  "consistent (cleanOldTimestamps now s) = consistent s"
  "consistent (addRequestTimestamp now s) = consistent s"
  "consistent (record_history entry s) = consistent s"
  "consistent (logRateLimitStatus now s) = consistent s"
  by (simp_all add: consistent_def pending_ids_def logRateLimitStatus_eq cleanOldTimestamps_def
      addRequestTimestamp_def record_history_def)

lemma processQueue_dequeue_Nil:
  "requestQueue s = [] \<Longrightarrow>
   processQueue_dequeue now s = s\<lparr>isProcessingQueue := False, drain := Idle\<rparr>"
  by (simp add: processQueue_dequeue_def)

lemma processQueue_dequeue_Cons:
  "requestQueue s = queueItem # rest \<Longrightarrow>
   processQueue_dequeue now s =
     s\<lparr>requestQueue := rest,
       history := history s @ [Shifted (promise queueItem), Invoked now (promise queueItem) True],
       requestTimestamps := filter (\<lambda>t. now - t < requestWindow) (requestTimestamps s @ [now]),
       drain := AwaitDownstream queueItem\<rparr>"
  by (simp add: processQueue_dequeue_def logRateLimitStatus_eq cleanOldTimestamps_def
      addRequestTimestamp_def record_history_def Let_def)

lemma consistent_processQueue_dequeue:
  assumes "unsettled (promises s) (nextPromise s) (map promise (requestQueue s) @ map fst (inflight s))"
    and "isProcessingQueue s"
  shows "consistent (processQueue_dequeue now s)"
proof (cases "requestQueue s")
  case Nil
  then show ?thesis using assms
    by (simp add: processQueue_dequeue_Nil consistent_def pending_ids_def)
next
  case (Cons queueItem rest)
  have "unsettled (promises s) (nextPromise s)
      (map promise rest @ map fst (inflight s) @ [promise queueItem])"
    using assms(1) by (rule unsettled_mono) (simp add: Cons)
  then show ?thesis using assms(2)
    by (simp add: processQueue_dequeue_Cons [OF Cons] consistent_def pending_ids_def)
qed

lemma consistent_processQueue_while:
  assumes "unsettled (promises s) (nextPromise s) (map promise (requestQueue s) @ map fst (inflight s))"
    and "isProcessingQueue s"
  shows "consistent (processQueue_while now s)"
proof (cases "requestQueue s = []")
  case True
  then show ?thesis using assms
    by (simp add: processQueue_while_def consistent_def pending_ids_def)
next
  case False
  obtain waitTime s1 where g: "getNextAvailableTime now s = (waitTime, s1)"
    by (cases "getNextAvailableTime now s")
  then have s1: "s1 = cleanOldTimestamps now s"
    using snd_getNextAvailableTime [of now s] by simp
  have u: "unsettled (promises s1) (nextPromise s1)
      (map promise (requestQueue s1) @ map fst (inflight s1))" "isProcessingQueue s1"
    using assms by (simp_all add: s1 cleanOldTimestamps_def)
  show ?thesis
  proof (cases "waitTime > 0")
    case True
    then show ?thesis using False g u
      by (simp add: processQueue_while_def consistent_def pending_ids_def)
  next
    case False
    then show ?thesis
      using \<open>requestQueue s \<noteq> []\<close> g consistent_processQueue_dequeue [OF u]
      by (simp add: processQueue_while_def)
  qed
qed

lemma consistent_core:
  assumes "consistent s"
  shows "unsettled (promises s) (nextPromise s) (map promise (requestQueue s) @ map fst (inflight s))"
proof -
  have "unsettled (promises s) (nextPromise s) (pending_ids s)"
    using assms by (simp add: consistent_def)
  then show ?thesis
    by (rule unsettled_mono) (simp add: pending_ids_def)
qed

lemma consistent_processQueue:
  assumes "consistent s"
  shows "consistent (processQueue now s)"
proof (cases "isProcessingQueue s \<or> requestQueue s = []")
  case True
  then show ?thesis using assms by (simp add: processQueue_def)
next
  case False
  have "consistent (processQueue_while now (s\<lparr>isProcessingQueue := True\<rparr>))"
    using consistent_core [OF assms] by (intro consistent_processQueue_while) simp_all
  then show ?thesis using False by (simp add: processQueue_def)
qed

lemma queueRequest_eq:
  "queueRequest now request p s =
     processQueue now
       (s\<lparr>history := history s @ [Pushed p],
          requestQueue := sort_key timestamp (requestQueue s @
             [\<lparr>timestamp = now, promise = p, requestData = request, priority = 1\<rparr>]),
          requestTimestamps := filter (\<lambda>t. now - t < requestWindow) (requestTimestamps s)\<rparr>)"
  by (simp add: queueRequest_def logRateLimitStatus_eq cleanOldTimestamps_def record_history_def
      Let_def)

lemma unsettled_perm:
  assumes "unsettled pr n ps" and "mset qs = mset ps"
  shows "unsettled pr n qs"
  using assms(1) by (rule unsettled_mono) (simp add: assms(2))

lemma consistent_queueRequest:
  assumes "unsettled (promises s) (nextPromise s) (p # pending_ids s)"
    and "isProcessingQueue s \<longleftrightarrow> drain s \<noteq> Idle"
  shows "consistent (queueRequest now request p s)"
proof -
  let ?item = "\<lparr>timestamp = now, promise = p, requestData = request, priority = 1\<rparr>"
  let ?s1 = "s\<lparr>history := history s @ [Pushed p],
          requestQueue := sort_key timestamp (requestQueue s @ [?item]),
          requestTimestamps := filter (\<lambda>t. now - t < requestWindow) (requestTimestamps s)\<rparr>"
  have "mset (pending_ids ?s1) = mset (p # pending_ids s)"
    by (simp add: pending_ids_def)
  then have "unsettled (promises s) (nextPromise s) (pending_ids ?s1)"
    using assms(1) by (rule unsettled_perm [rotated])
  then have "consistent ?s1"
    using assms(2) by (simp add: consistent_def)
  then show ?thesis
    unfolding queueRequest_eq by (rule consistent_processQueue)
qed

lemma consistent_Submit:
  assumes "consistent s"
  shows "consistent (generateBrandingImage_rateLimited request now s)"
proof -
  let ?p = "nextPromise s"
  let ?s0 = "s\<lparr>nextPromise := Suc ?p\<rparr>"
  have u: "unsettled (promises s) (Suc ?p) (?p # pending_ids s)"
    using assms by (simp add: consistent_def unsettled_fresh)
  have fl: "isProcessingQueue s \<longleftrightarrow> drain s \<noteq> Idle"
    using assms by (simp add: consistent_def)
  obtain can s1 where cm: "canMakeRequest now ?s0 = (can, s1)"
    by (cases "canMakeRequest now ?s0")
  then have s1: "s1 = cleanOldTimestamps now ?s0"
    using snd_canMakeRequest [of now ?s0] by simp
  show ?thesis
  proof (cases can)
    case True
    let ?s3 = "s1\<lparr>requestTimestamps := requestTimestamps s1 @ [now],
                  history := history s1 @ [Invoked now ?p False],
                  inflight := inflight s1 @ [(?p, request)]\<rparr>"
    have "mset (pending_ids ?s3) = mset (?p # pending_ids s)"
      by (simp add: pending_ids_def s1 cleanOldTimestamps_def)
    then have "unsettled (promises s) (Suc ?p) (pending_ids ?s3)"
      using u by (rule unsettled_perm [rotated])
    then have "consistent ?s3"
      using fl by (simp add: consistent_def s1 cleanOldTimestamps_def)
    then show ?thesis using True cm
      by (simp add: generateBrandingImage_rateLimited_def Let_def addRequestTimestamp_def
          record_history_def)
  next
    case False
    have "consistent (queueRequest now request ?p s1)"
      using u fl
      by (intro consistent_queueRequest) (simp_all add: s1 cleanOldTimestamps_def pending_ids_def)
    then show ?thesis using False cm
      by (simp add: generateBrandingImage_rateLimited_def Let_def)
  qed
qed

lemma unsettled_cons:
  assumes "unsettled pr n ps" and "p \<notin> set ps" and "p < n" and "pr p = None"
  shows "unsettled pr n (p # ps)"
  using assms by (auto simp add: unsettled_def)

lemma unsettled_cong:
  assumes "unsettled pr n ps" and "\<forall>p\<in>set ps. pr' p = pr p" and "\<forall>p. n \<le> p \<longrightarrow> pr' p = None"
  shows "unsettled pr' n ps"
  using assms by (auto simp add: unsettled_def)

lemma consistent_cong:
  assumes "consistent s" and "promises s' = promises s" and "nextPromise s' = nextPromise s"
    and "mset (pending_ids s') = mset (pending_ids s)"
    and "isProcessingQueue s' \<longleftrightarrow> drain s' \<noteq> Idle"
  shows "consistent s'"
proof -
  have "unsettled (promises s) (nextPromise s) (pending_ids s)"
    using assms(1) by (simp add: consistent_def)
  then have "unsettled (promises s) (nextPromise s) (pending_ids s')"
    by (rule unsettled_perm) (rule assms(4))
  then show ?thesis
    using assms(2,3,5) by (simp add: consistent_def)
qed

lemma settle_pending:
  "promises s p = None \<Longrightarrow> settle p v s = s\<lparr>promises := (promises s)(p \<mapsto> v)\<rparr>"
  by (simp add: settle_def)

lemma image_filter_mset_subseteq: "image_mset f (filter_mset P M) \<subseteq># image_mset f M"
  by (rule image_mset_subseteq_mono) (rule multiset_filter_subset)

lemma consistent_fast_settled:
  assumes "consistent s" and "map_of (inflight s) p = Some request"
  shows "consistent (generateBrandingImage_settled p request outcome now s)"
proof -
  let ?s0 = "s\<lparr>inflight := filter (\<lambda>c. fst c \<noteq> p) (inflight s)\<rparr>"
  have u: "unsettled (promises s) (nextPromise s) (pending_ids s)"
    and fl: "isProcessingQueue s \<longleftrightarrow> drain s \<noteq> Idle"
    using assms(1) by (simp_all add: consistent_def)
  have pin: "p \<in> set (map fst (inflight s))"
    using assms(2) by (metis map_of_eq_None_iff option.distinct(1) set_map)
  then have pid: "p \<in> set (pending_ids s)"
    by (simp add: pending_ids_def)
  have p: "p < nextPromise s" "promises s p = None"
    using unsettled_member [OF u pid] by simp_all
  have u0: "unsettled (promises s) (nextPromise s) (pending_ids ?s0)"
    using u
    by (rule unsettled_mono)
      (simp add: pending_ids_def image_filter_mset_subseteq subset_mset.add_mono)
  have "distinct (pending_ids s)"
    using u by (rule unsettled_distinct)
  then have out: "p \<notin> set (pending_ids ?s0)"
    using pin by (auto simp add: pending_ids_def)
  have st: "consistent (settle p v (?s0\<lparr>requestTimestamps := ts\<rparr>))" for v ts
    using unsettled_settle [OF u0 out p(1), of v] fl p(2)
    by (simp add: settle_pending consistent_def pending_ids_def)
  have st0: "consistent (settle p v ?s0)" for v
    using unsettled_settle [OF u0 out p(1), of v] fl p(2)
    by (simp add: settle_pending consistent_def pending_ids_def)
  show ?thesis
  proof (cases outcome)
    case (Inr result)
    then show ?thesis using st0 by (simp add: generateBrandingImage_settled_def Let_def)
  next
    case (Inl e)
    show ?thesis
    proof (cases "isRateLimitError e")
      case False
      then show ?thesis using Inl st0 by (simp add: generateBrandingImage_settled_def Let_def)
    next
      case True
      let ?s1 = "?s0\<lparr>requestTimestamps := butlast (requestTimestamps ?s0)\<rparr>"
      have "unsettled (promises ?s1) (nextPromise ?s1) (p # pending_ids ?s1)"
        using unsettled_cons [OF u0 out p] by (simp add: pending_ids_def)
      then have "consistent (queueRequest now request p ?s1)"
        using fl by (intro consistent_queueRequest) simp_all
      then show ?thesis using Inl True st
        by (simp add: generateBrandingImage_settled_def Let_def)
    qed
  qed
qed

lemma snd_getRetryAfterTime:
  "snd (getRetryAfterTime e now s) = s \<or> snd (getRetryAfterTime e now s) = cleanOldTimestamps now s"
  using snd_getNextAvailableTime [of now s]
  by (auto simp add: getRetryAfterTime_def Let_def split_beta split: option.splits)

lemma consistent_drain_settled:
  assumes "consistent s" and "drain s = AwaitDownstream queueItem"
  shows "consistent (processQueue_settled queueItem outcome now s)"
proof -
  let ?q = "promise queueItem"
  have u: "unsettled (promises s) (nextPromise s) (pending_ids s)"
    and fl: "isProcessingQueue s"
    using assms by (simp_all add: consistent_def)
  have ids: "pending_ids s = map promise (requestQueue s) @ map fst (inflight s) @ [?q]"
    using assms(2) by (simp add: pending_ids_def)
  have q: "?q < nextPromise s" "promises s ?q = None"
    using unsettled_member [OF u, of ?q] by (simp_all add: ids)
  have "distinct (pending_ids s)"
    using u by (rule unsettled_distinct)
  then have out: "?q \<notin> set (map promise (requestQueue s) @ map fst (inflight s))"
    by (auto simp add: ids)
  have core: "unsettled (promises s) (nextPromise s) (map promise (requestQueue s) @ map fst (inflight s))"
    using assms(1) by (rule consistent_core)
  have w: "consistent (processQueue_while now (settle ?q v s))" for v
    using unsettled_settle [OF core out q(1), of v] fl q(2)
    by (intro consistent_processQueue_while) (simp_all add: settle_pending)
  show ?thesis
  proof (cases outcome)
    case (Inr result)
    then show ?thesis using w by (simp add: processQueue_settled_def)
  next
    case (Inl e)
    show ?thesis
    proof (cases "isRateLimitError e")
      case False
      then show ?thesis using Inl w by (simp add: processQueue_settled_def)
    next
      case True
      let ?s2 = "s\<lparr>requestTimestamps := butlast (requestTimestamps s),
                    requestQueue := queueItem # requestQueue s,
                    history := history s @ [Unshifted ?q]\<rparr>"
      let ?s3 = "snd (getRetryAfterTime e now ?s2)"
      have "consistent (?s3\<lparr>drain := SleepRetry d\<rparr>)" for d
        using assms(1)
      proof (rule consistent_cong)
        show "promises (?s3\<lparr>drain := SleepRetry d\<rparr>) = promises s"
          using snd_getRetryAfterTime [of e now ?s2] by (auto simp add: cleanOldTimestamps_def)
        show "nextPromise (?s3\<lparr>drain := SleepRetry d\<rparr>) = nextPromise s"
          using snd_getRetryAfterTime [of e now ?s2] by (auto simp add: cleanOldTimestamps_def)
        show "mset (pending_ids (?s3\<lparr>drain := SleepRetry d\<rparr>)) = mset (pending_ids s)"
          using snd_getRetryAfterTime [of e now ?s2]
          by (auto simp add: cleanOldTimestamps_def pending_ids_def assms(2))
        show "isProcessingQueue (?s3\<lparr>drain := SleepRetry d\<rparr>) \<longleftrightarrow>
            drain (?s3\<lparr>drain := SleepRetry d\<rparr>) \<noteq> Idle"
          using snd_getRetryAfterTime [of e now ?s2] fl by (auto simp add: cleanOldTimestamps_def)
      qed
      then show ?thesis using Inl True
        by (simp add: processQueue_settled_def Let_def record_history_def split_beta)
    qed
  qed
qed

lemma foldl_settle_promises:
  "promises (foldl (\<lambda>s' item. settle (promise item) v s') s items) p =
     (if p \<in> promise ` set items \<and> promises s p = None then Some v else promises s p)"
  by (induction items arbitrary: s) (auto simp add: settle_def)

lemma foldl_settle_fields:
  "requestQueue (foldl (\<lambda>s' item. settle (promise item) v s') s items) = requestQueue s"
  "inflight (foldl (\<lambda>s' item. settle (promise item) v s') s items) = inflight s"
  "drain (foldl (\<lambda>s' item. settle (promise item) v s') s items) = drain s"
  "isProcessingQueue (foldl (\<lambda>s' item. settle (promise item) v s') s items) = isProcessingQueue s"
  "nextPromise (foldl (\<lambda>s' item. settle (promise item) v s') s items) = nextPromise s"
  "requestTimestamps (foldl (\<lambda>s' item. settle (promise item) v s') s items) = requestTimestamps s"
  "history (foldl (\<lambda>s' item. settle (promise item) v s') s items) = history s"
  by (induction items arbitrary: s) (simp_all add: settle_def)

lemma clearQueue_fields:
  "requestQueue (clearQueue s) = []"
  "inflight (clearQueue s) = inflight s"
  "drain (clearQueue s) = drain s"
  "isProcessingQueue (clearQueue s) = isProcessingQueue s"
  "nextPromise (clearQueue s) = nextPromise s"
  "requestTimestamps (clearQueue s) = requestTimestamps s"
  "history (clearQueue s) = history s"
  by (simp_all add: clearQueue_def foldl_settle_fields)

lemma clearQueue_promises:
  "promises (clearQueue s) p =
     (if p \<in> promise ` set (requestQueue s) \<and> promises s p = None
      then Some (Rejected queue_clear_error) else promises s p)"
  by (simp add: clearQueue_def foldl_settle_promises)

lemma consistent_clearQueue:
  assumes "consistent s"
  shows "consistent (clearQueue s)"
proof -
  have u: "unsettled (promises s) (nextPromise s) (pending_ids s)"
    using assms by (simp add: consistent_def)
  have d: "distinct (pending_ids s)"
    using u by (rule unsettled_distinct)
  have ids: "pending_ids (clearQueue s) =
      map fst (inflight s) @ (case drain s of AwaitDownstream q \<Rightarrow> [promise q] | _ \<Rightarrow> [])"
    by (simp add: pending_ids_def clearQueue_fields)
  have u1: "unsettled (promises s) (nextPromise s) (pending_ids (clearQueue s))"
    using u unfolding ids by (rule unsettled_mono) (simp add: pending_ids_def)
  have same: "\<forall>p\<in>set (pending_ids (clearQueue s)). promises (clearQueue s) p = promises s p"
  proof
    fix p
    assume "p \<in> set (pending_ids (clearQueue s))"
    then have "p \<in> set (map fst (inflight s)
        @ (case drain s of AwaitDownstream q \<Rightarrow> [promise q] | _ \<Rightarrow> []))"
      by (simp only: ids)
    with d have "p \<notin> promise ` set (requestQueue s)"
      by (auto simp add: pending_ids_def)
    then show "promises (clearQueue s) p = promises s p"
      by (simp add: clearQueue_promises)
  qed
  have "promises (clearQueue s) p = None" if "nextPromise s \<le> p" for p
  proof -
    have "promises s p = None"
      using u that by (simp add: unsettled_def)
    moreover have "p \<notin> promise ` set (requestQueue s)"
      using unsettled_member(1) [OF u, of p] that by (auto simp add: pending_ids_def)
    ultimately show ?thesis
      by (simp add: clearQueue_promises)
  qed
  then have "unsettled (promises (clearQueue s)) (nextPromise s) (pending_ids (clearQueue s))"
    using unsettled_cong [OF u1 same] by simp
  then show ?thesis
    using assms by (simp add: consistent_def clearQueue_fields)
qed

lemma consistent_timerFires:
  assumes "consistent s"
  shows "consistent (timerFires now s)"
proof (cases "drain s")
  case (SleepSlot due)
  have "consistent (processQueue_dequeue now s)"
    using consistent_core [OF assms] assms SleepSlot
    by (intro consistent_processQueue_dequeue) (simp_all add: consistent_def)
  then show ?thesis using assms SleepSlot by (simp add: timerFires_def)
next
  case (SleepRetry due)
  have "consistent (processQueue_while now s)"
    using consistent_core [OF assms] assms SleepRetry
    by (intro consistent_processQueue_while) (simp_all add: consistent_def)
  then show ?thesis using assms SleepRetry by (simp add: timerFires_def)
qed (use assms in \<open>simp_all add: timerFires_def\<close>)

lemma consistent_downstreamSettles:
  assumes "consistent s"
  shows "consistent (downstreamSettles p outcome now s)"
proof (cases "\<exists>queueItem. drain s = AwaitDownstream queueItem \<and> promise queueItem = p")
  case True
  then obtain queueItem where q: "drain s = AwaitDownstream queueItem" "promise queueItem = p"
    by blast
  then show ?thesis
    using consistent_drain_settled [OF assms q(1)] by (simp add: downstreamSettles_def)
next
  case False
  have "downstreamSettles p outcome now s =
      (case map_of (inflight s) p of
         Some request \<Rightarrow> generateBrandingImage_settled p request outcome now s
       | None \<Rightarrow> s)"
    using False by (cases "drain s") (auto simp add: downstreamSettles_def)
  then show ?thesis
    using assms consistent_fast_settled [OF assms]
    by (cases "map_of (inflight s) p") simp_all
qed

lemma consistent_step:
  assumes "consistent s"
  shows "consistent (step e s)"
  using assms
  by (cases e)
    (simp_all add: consistent_Submit consistent_downstreamSettles consistent_timerFires
      consistent_clearQueue consistent_frame)

lemma consistent_initial: "consistent initial"
  by (simp add: consistent_def unsettled_def pending_ids_def initial_def)

lemma run_snoc: "run (evs @ [e]) s = step e (run evs s)"
  by (simp add: run_def)

lemma consistent_run: "consistent (run evs initial)"
proof (induction evs rule: rev_induct)
  case Nil
  then show ?case by (simp add: run_def consistent_initial)
next
  case (snoc e evs)
  then show ?case by (simp add: run_snoc consistent_step)
qed

text \<open>
  C9: in every state the service can reach, \<open>clearQueue\<close> rejects the promise of every
  request that is in the queue with the error "Request cancelled due to queue clear" and
  leaves the queue empty; the calls in flight (fast path and drain loop) stay as they are
  and their promises stay pending.
\<close>

theorem clearQueue_rejects_all_pending:
  "requestQueue (step ClearQueue (run evs initial)) = []
   \<and> (\<forall>item\<in>set (requestQueue (run evs initial)).
        promises (step ClearQueue (run evs initial)) (promise item)
          = Some (Rejected queue_clear_error))
   \<and> inflight (step ClearQueue (run evs initial)) = inflight (run evs initial)
   \<and> drain (step ClearQueue (run evs initial)) = drain (run evs initial)
   \<and> (\<forall>c\<in>set (inflight (run evs initial)).
        promises (step ClearQueue (run evs initial)) (fst c) = None)
   \<and> (\<forall>queueItem. drain (run evs initial) = AwaitDownstream queueItem \<longrightarrow>
        promises (step ClearQueue (run evs initial)) (promise queueItem) = None)"
proof -
  let ?s = "run evs initial"
  have c: "consistent ?s" by (rule consistent_run)
  then have u: "unsettled (promises ?s) (nextPromise ?s) (pending_ids ?s)"
    by (simp add: consistent_def)
  have d: "distinct (pending_ids ?s)"
    using u by (rule unsettled_distinct)
  have pend: "promises ?s p = None" if "p \<in> set (pending_ids ?s)" for p
    using unsettled_member(2) [OF u that] .
  have 1: "promises (clearQueue ?s) (promise item) = Some (Rejected queue_clear_error)"
    if "item \<in> set (requestQueue ?s)" for item
    using that pend [of "promise item"] by (simp add: clearQueue_promises pending_ids_def)
  have 2: "promises (clearQueue ?s) (fst c) = None" if "c \<in> set (inflight ?s)" for c
  proof -
    have "fst c \<notin> promise ` set (requestQueue ?s)"
      using d that by (auto simp add: pending_ids_def)
    then show ?thesis
      using that pend [of "fst c"] by (simp add: clearQueue_promises pending_ids_def)
  qed
  have 3: "promises (clearQueue ?s) (promise queueItem) = None"
    if "drain ?s = AwaitDownstream queueItem" for queueItem
  proof -
    have "promise queueItem \<notin> promise ` set (requestQueue ?s)"
      using d that by (auto simp add: pending_ids_def)
    then show ?thesis
      using that pend [of "promise queueItem"] by (simp add: clearQueue_promises pending_ids_def)
  qed
  show ?thesis
    using 1 2 3 by (simp add: clearQueue_fields)
qed

theorem clearQueue_rejects_all_pending_witness:
  "requestQueue (step ClearQueue (run clear_trace initial)) = []
   \<and> promises (step ClearQueue (run clear_trace initial)) 5 = Some (Rejected queue_clear_error)
   \<and> promises (step ClearQueue (run clear_trace initial)) 6 = Some (Rejected queue_clear_error)
   \<and> promises (step ClearQueue (run clear_trace initial)) 0 = None"
proof -
  have q: "requestQueue (run clear_trace initial) =
      [\<lparr>timestamp = 10, promise = 5, requestData = sample_request, priority = 1\<rparr>,
       \<lparr>timestamp = 10, promise = 6, requestData = sample_request, priority = 1\<rparr>]"
    by (simp add: clear_trace_def service_defs)
  have f: "inflight (run clear_trace initial) =
      [(0, sample_request), (1, sample_request), (2, sample_request), (3, sample_request),
       (4, sample_request)]"
    by (simp add: clear_trace_def service_defs)
  show ?thesis
    using clearQueue_rejects_all_pending [of clear_trace] by (simp add: q f)
qed

section \<open>First in, first out\<close>



lemma pushed_append:
  "pushed (s\<lparr>history := history s @ h\<rparr>) =
     pushed s @ concat (map (\<lambda>entry. case entry of Pushed p \<Rightarrow> [p] | _ \<Rightarrow> []) h)"
  by (simp add: pushed_def)

lemma shifted_append:
  "shifted (s\<lparr>history := history s @ h\<rparr>) =
     shifted s @ concat (map (\<lambda>entry. case entry of Shifted p \<Rightarrow> [p] | _ \<Rightarrow> []) h)"
  by (simp add: shifted_def)

lemma fifo_invoked: "fifo t (s\<lparr>history := history s @ [Invoked now p d]\<rparr>) = fifo t s"
  by (simp add: fifo_def pushed_def shifted_def)















section \<open>What happens to a rate-limited failure\<close>


lemma held_frame:
  "held (s\<lparr>requestTimestamps := ts\<rparr>) p = held s p"
  "held (s\<lparr>isProcessingQueue := b\<rparr>) p = held s p"
  "held (s\<lparr>history := h\<rparr>) p = held s p"
  "held (cleanOldTimestamps now s) p = held s p"
  by (simp_all add: held_def cleanOldTimestamps_def)















end
